theory Spec2Isabelle
  imports Main "HOL-Library.Word" "HOL-Library.Sublist"
begin

section \<open>Python values used by the export engine\<close>

text \<open>
  A Python \<open>str\<close> is a sequence of Unicode code points, \<open>bytes\<close> a sequence of octets.
  String literals of the source are written through \<open>lit\<close>.
\<close>

type_synonym codepoint = nat
type_synonym pystr = "codepoint list"
type_synonym byte = "8 word"
type_synonym pybytes = "byte list"

definition lit :: "string \<Rightarrow> pystr" where
  "lit s = map of_char s"

text \<open>
  Identifiers reach the service either as \<open>uuid.UUID\<close> objects or as their text; the
  source compares them through \<open>str(...)\<close>. \<open>py_str\<close> is that conversion, \<open>truthy_id\<close>
  is the truth value Python gives an optional identifier in \<open>if x:\<close> (\<open>None\<close> and the
  empty string are false, a UUID object is always true).
\<close>

datatype ident = UuidObj pystr | StrId pystr

fun py_str :: "ident \<Rightarrow> pystr" where
  "py_str (UuidObj s) = s"
| "py_str (StrId s) = s"

fun truthy_id :: "ident option \<Rightarrow> bool" where
  "truthy_id None = False"
| "truthy_id (Some (UuidObj s)) = True"
| "truthy_id (Some (StrId s)) = (s \<noteq> [])"

record folder =
  f_id :: ident
  name :: pystr
  parent_id :: "ident option"

section \<open>Exceptions\<close>

text \<open>The exceptions the export can meet, as values.\<close>

datatype py_error =
  RecursionError | UnicodeEncodeError | IndexError | StructError | ClientError | DatabaseError

section \<open>Folder path resolver\<close>

text \<open>
  \<open>next((f for f in all_folders if str(f.id) == str(ref)), None)\<close>: the first folder of
  the list whose identifier has the same text as the reference.
\<close>

definition find_folder :: "folder list \<Rightarrow> ident \<Rightarrow> folder option" where
  "find_folder all_folders ref = find (\<lambda>f. py_str (f_id f) = py_str ref) all_folders"

text \<open>
  \<open>_get_folder_path(folder, all_folders, path="")\<close>. The source follows parent
  references with no visited set; what bounds the recursion is the interpreter's
  recursion limit. \<open>room\<close> is the number of further nested calls of the function that the
  limit still allows below the present call: a call that needs one more with no room left
  raises \<open>RecursionError\<close>. Only the nested calls of the function itself are counted,
  one per parent followed; the frames of the generator expression and of \<open>str\<close> inside
  a call are taken to fit.
\<close>

fun get_folder_path :: "nat \<Rightarrow> folder \<Rightarrow> folder list \<Rightarrow> pystr \<Rightarrow> py_error + pystr" where
  "get_folder_path room folder all_folders path =
     (let current_path = (if path = [] then name folder else name folder @ lit ''/'' @ path)
      in if truthy_id (parent_id folder)
         then (case find_folder all_folders (the (parent_id folder)) of
                 Some parent \<Rightarrow>
                   (case room of
                      0 \<Rightarrow> Inl RecursionError
                    | Suc room' \<Rightarrow> get_folder_path room' parent all_folders current_path)
               | None \<Rightarrow> Inr current_path)
         else Inr current_path)"

declare get_folder_path.simps [simp del]

text \<open>
  The parent the resolver moves to from a folder, and the folder reached after \<open>n\<close> such
  moves. A parent chain is cyclic at a folder when some positive number of moves leads
  back to it.
\<close>

definition parent_of :: "folder list \<Rightarrow> folder \<Rightarrow> folder option" where
  "parent_of all_folders folder =
     (if truthy_id (parent_id folder) then find_folder all_folders (the (parent_id folder))
      else None)"

fun ancestor :: "nat \<Rightarrow> folder list \<Rightarrow> folder \<Rightarrow> folder option" where
  "ancestor 0 all_folders folder = Some folder"
| "ancestor (Suc n) all_folders folder =
     (case parent_of all_folders folder of
        None \<Rightarrow> None
      | Some parent \<Rightarrow> ancestor n all_folders parent)"

section \<open>File name sanitizer\<close>

text \<open>
  \<open>invalid_chars = '<>:"/\\|?*'\<close>, as code points:
  \<open><\<close> 60, \<open>>\<close> 62, \<open>:\<close> 58, the double quote 34, \<open>/\<close> 47, the backslash 92,
  \<open>|\<close> 124, \<open>?\<close> 63, \<open>*\<close> 42.
\<close>

definition invalid_chars :: pystr where
  "invalid_chars = [60, 62, 58, 34, 47, 92, 124, 63, 42]"

text \<open>\<open>s.replace(old, new)\<close> for one-character \<open>old\<close> and \<open>new\<close>.\<close>

definition replace_char :: "codepoint \<Rightarrow> codepoint \<Rightarrow> pystr \<Rightarrow> pystr" where
  "replace_char old new s = map (\<lambda>c. if c = old then new else c) s"

text \<open>
  \<open>str.isspace\<close> on one character: the code points \<open>str.strip()\<close> removes
  (TAB..CR, FS..US, space, NEL, NBSP, Ogham space, U+2000..U+200A, line and paragraph
  separator, narrow NBSP, medium mathematical space, ideographic space).
\<close>

definition py_isspace :: "codepoint \<Rightarrow> bool" where
  "py_isspace c \<longleftrightarrow>
     (9 \<le> c \<and> c \<le> 13) \<or> (28 \<le> c \<and> c \<le> 32) \<or> c = 133 \<or> c = 160 \<or> c = 5760 \<or>
     (8192 \<le> c \<and> c \<le> 8202) \<or> c = 8232 \<or> c = 8233 \<or> c = 8239 \<or> c = 8287 \<or> c = 12288"

definition strip :: "pystr \<Rightarrow> pystr" where
  "strip s = rev (dropWhile py_isspace (rev (dropWhile py_isspace s)))"

text \<open>\<open>_sanitize_filename\<close>: the \<open>for char in invalid_chars\<close> loop, then \<open>strip()\<close>.\<close>

definition sanitize_filename :: "pystr \<Rightarrow> pystr" where
  "sanitize_filename filename =
     strip (foldl (\<lambda>fn ch. replace_char ch (of_char CHR ''_'') fn) filename invalid_chars)"

section \<open>Files, content and the collaborators\<close>

text \<open>
  \<open>s.encode('utf-8')\<close>: one to four octets per code point; a surrogate code point
  (U+D800..U+DFFF) makes the call raise \<open>UnicodeEncodeError\<close>.
\<close>

definition is_surrogate :: "codepoint \<Rightarrow> bool" where
  "is_surrogate c \<longleftrightarrow> 55296 \<le> c \<and> c \<le> 57343"

definition utf8_char :: "codepoint \<Rightarrow> pybytes" where
  "utf8_char c =
     (if c < 128 then [of_nat c]
      else if c < 2048 then [of_nat (192 + c div 64), of_nat (128 + c mod 64)]
      else if c < 65536 then
        [of_nat (224 + c div 4096), of_nat (128 + c div 64 mod 64), of_nat (128 + c mod 64)]
      else
        [of_nat (240 + c div 262144), of_nat (128 + c div 4096 mod 64),
         of_nat (128 + c div 64 mod 64), of_nat (128 + c mod 64)])"

definition encode_utf8 :: "pystr \<Rightarrow> py_error + pybytes" where
  "encode_utf8 s =
     (if list_ex is_surrogate s then Inl UnicodeEncodeError else Inr (concat (map utf8_char s)))"

text \<open>Inline content of a file record is text or already binary; the column is nullable.\<close>

datatype inline = Text pystr | Binary pybytes

fun truthy_content :: "inline option \<Rightarrow> bool" where
  "truthy_content None = False"
| "truthy_content (Some (Text s)) = (s \<noteq> [])"
| "truthy_content (Some (Binary b)) = (b \<noteq> [])"

fun truthy_str :: "pystr option \<Rightarrow> bool" where
  "truthy_str None = False"
| "truthy_str (Some s) = (s \<noteq> [])"

record file_record =
  filename :: pystr
  unique_filename :: "pystr option"
  content :: "inline option"
  folder_id :: "ident option"

text \<open>
  The calls a \<open>FileService\<close> makes on its collaborators (database session, file and
  folder repositories, S3 client). The export is modelled together with the trace of the
  calls it makes, in order.
\<close>

datatype call =
    Repo_list_by_user_id pystr pystr
  | Repo_get_by_id_and_user
  | Repo_create
  | Repo_update
  | Repo_delete
  | Session_commit
  | Session_refresh
  | Folder_repo_list_by_notebook pystr pystr
  | S3_get_object pystr
  | S3_head_bucket
  | S3_create_bucket
  | S3_upload_fileobj
  | S3_delete_object

text \<open>The calls that change persisted state (database rows, stored objects, buckets).\<close>

fun is_write :: "call \<Rightarrow> bool" where
  "is_write Repo_create = True"
| "is_write Repo_update = True"
| "is_write Repo_delete = True"
| "is_write Session_commit = True"
| "is_write S3_create_bucket = True"
| "is_write S3_upload_fileobj = True"
| "is_write S3_delete_object = True"
| "is_write _ = False"

text \<open>
  The service object: the repositories and the S3 client are collaborators outside the
  service, given here by what their read calls answer. \<open>folder_repo\<close> and \<open>s3_client\<close>
  may be \<open>None\<close>. The client's function is \<open>get_object(Bucket=BUCKET_NAME,
  Key=k)['Body'].read()\<close>.
\<close>

record service =
  repo_list_by_user_id :: "pystr \<Rightarrow> pystr \<Rightarrow> py_error + file_record list"
  folder_repo :: "(pystr \<Rightarrow> pystr \<Rightarrow> py_error + folder list) option"
  s3_client :: "(pystr \<Rightarrow> py_error + pybytes) option"

text \<open>
  \<open>get_file_bytes_from_s3\<close>: no client, no fetch and empty bytes; otherwise one
  \<open>get_object\<close>, whose failure is caught inside and answered with empty bytes.
\<close>

definition get_file_bytes_from_s3 :: "service \<Rightarrow> pystr \<Rightarrow> (py_error + pybytes) \<times> call list" where
  "get_file_bytes_from_s3 self key =
     (case s3_client self of
        None \<Rightarrow> (Inr [], [])
      | Some get_object \<Rightarrow>
          (case get_object key of
             Inr body \<Rightarrow> (Inr body, [S3_get_object key])
           | Inl e \<Rightarrow> (Inr [], [S3_get_object key])))"

section \<open>Writing an archive entry\<close>

text \<open>An archive is the sequence of entries written, each a stored name with its data.\<close>

type_synonym entry = "pystr \<times> pybytes"

text \<open>
  \<open>zipfile.ZipFile.writestr(arcname, data)\<close> of the standard library, as far as the
  export meets it. \<open>ZipInfo\<close> keeps the name up to its first NUL character; \<open>writestr\<close>
  reads the last character of that name (\<open>IndexError\<close> on the empty name); the local
  header encodes the name (\<open>UnicodeEncodeError\<close> on a surrogate) and packs the length of
  the encoded name in sixteen bits (\<open>struct.error\<close> above 65535 octets). A call that
  raises leaves the archive as it was.
\<close>

definition stored_name :: "pystr \<Rightarrow> pystr" where
  "stored_name arcname = takeWhile (\<lambda>c. c \<noteq> 0) arcname"

definition writable :: "pystr \<Rightarrow> bool" where
  "writable arcname \<longleftrightarrow>
     stored_name arcname \<noteq> [] \<and> \<not> list_ex is_surrogate (stored_name arcname) \<and>
     length (concat (map utf8_char (stored_name arcname))) \<le> 65535"

definition writestr :: "entry list \<Rightarrow> pystr \<Rightarrow> pybytes \<Rightarrow> py_error + entry list" where
  "writestr zipf arcname data =
     (if stored_name arcname = [] then Inl IndexError
      else if list_ex is_surrogate (stored_name arcname) then Inl UnicodeEncodeError
      else if 65535 < length (concat (map utf8_char (stored_name arcname))) then Inl StructError
      else Inr (zipf @ [(stored_name arcname, data)]))"

section \<open>Export of a notebook as an archive\<close>

text \<open>Lines 359 to 376 of the loop body: the bytes to archive for one file.\<close>

definition file_content :: "service \<Rightarrow> file_record \<Rightarrow> (py_error + pybytes) \<times> call list" where
  "file_content self f =
     (if truthy_content (content f) then
        (case the (content f) of
           Text s \<Rightarrow> (encode_utf8 s, [])
         | Binary b \<Rightarrow> (Inr b, []))
      else if truthy_str (unique_filename f) then
        (case get_file_bytes_from_s3 self (the (unique_filename f)) of
           (Inr b, cs) \<Rightarrow> (Inr b, cs)
         | (Inl s3_err, cs) \<Rightarrow> (Inr [], cs))
      else (Inr [], []))"

text \<open>Lines 378 to 390: the entry name of one file.\<close>

definition file_zip_path :: "nat \<Rightarrow> pystr \<Rightarrow> folder list \<Rightarrow> file_record \<Rightarrow> py_error + pystr" where
  "file_zip_path room base_folder folders f =
     (if truthy_id (folder_id f) then
        (case find_folder folders (the (folder_id f)) of
           Some folder \<Rightarrow>
             (case get_folder_path room folder folders [] of
                Inr folder_path \<Rightarrow> Inr (base_folder @ folder_path @ lit ''/'' @ filename f)
              | Inl e \<Rightarrow> Inl e)
         | None \<Rightarrow> Inr (base_folder @ filename f))
      else Inr (base_folder @ filename f))"

text \<open>
  One iteration of \<open>for file in files\<close>: the body, \<open>writestr\<close> included, runs under
  \<open>try\<close>, and \<open>except Exception: continue\<close> leaves the archive as it was. The
  \<open>print\<close> calls of the handlers are diagnostics on the standard output and are not
  part of the model.
\<close>

definition add_file ::
  "service \<Rightarrow> nat \<Rightarrow> pystr \<Rightarrow> folder list \<Rightarrow> entry list \<times> call list \<Rightarrow> file_record \<Rightarrow>
     entry list \<times> call list" where
  "add_file self room base_folder folders st f =
     (case st of (zipf, calls) \<Rightarrow>
        (case file_content self f of
           (Inl e, cs) \<Rightarrow> (zipf, calls @ cs)
         | (Inr data, cs) \<Rightarrow>
             (case file_zip_path room base_folder folders f of
                Inl e \<Rightarrow> (zipf, calls @ cs)
              | Inr zip_path \<Rightarrow>
                  (case writestr zipf zip_path data of
                     Inl e \<Rightarrow> (zipf, calls @ cs)
                   | Inr zipf' \<Rightarrow> (zipf', calls @ cs)))))"

text \<open>
  \<open>for folder in folders\<close>: one empty directory entry per folder. The loop is not under
  \<open>try\<close>: a path that does not resolve, or a name that cannot be written, ends the
  export.
\<close>

fun add_folders ::
  "nat \<Rightarrow> pystr \<Rightarrow> folder list \<Rightarrow> folder list \<Rightarrow> entry list \<Rightarrow> py_error + entry list" where
  "add_folders room base_folder all_folders [] zipf = Inr zipf"
| "add_folders room base_folder all_folders (folder # rest) zipf =
     (case get_folder_path room folder all_folders [] of
        Inl e \<Rightarrow> Inl e
      | Inr folder_path \<Rightarrow>
          (case writestr zipf (base_folder @ folder_path @ lit ''/'') [] of
             Inl e \<Rightarrow> Inl e
           | Inr zipf' \<Rightarrow> add_folders room base_folder all_folders rest zipf'))"

text \<open>
  \<open>safe_notebook_name\<close> and \<open>base_folder\<close> of lines 342 and 343, from
  \<open>notebook_name or "notebook"\<close>.
\<close>

definition safe_notebook_name :: "pystr option \<Rightarrow> pystr" where
  "safe_notebook_name notebook_name =
     sanitize_filename (if truthy_str notebook_name then the notebook_name else lit ''notebook'')"

definition base_folder_of :: "pystr option \<Rightarrow> pystr" where
  "base_folder_of notebook_name = safe_notebook_name notebook_name @ lit ''/''"

text \<open>\<open>folders = []\<close>, replaced by the repository's answer when there is a repository.\<close>

definition fetch_folders :: "service \<Rightarrow> pystr \<Rightarrow> pystr \<Rightarrow> (py_error + folder list) \<times> call list" where
  "fetch_folders self user_id notebook_id =
     (case folder_repo self of
        None \<Rightarrow> (Inr [], [])
      | Some list_by_notebook \<Rightarrow>
          (list_by_notebook user_id notebook_id, [Folder_repo_list_by_notebook user_id notebook_id]))"

text \<open>
  \<open>export_notebook_as_zip\<close>, with the room the recursion limit leaves the resolver at its
  two call sites (both are in the body of the export, at the same depth).
\<close>

definition export_notebook_as_zip ::
  "service \<Rightarrow> nat \<Rightarrow> pystr \<Rightarrow> pystr \<Rightarrow> pystr option \<Rightarrow> (py_error + entry list) \<times> call list" where
  "export_notebook_as_zip self room user_id notebook_id notebook_name =
     (case repo_list_by_user_id self user_id notebook_id of
        Inl e \<Rightarrow> (Inl e, [Repo_list_by_user_id user_id notebook_id])
      | Inr files \<Rightarrow>
          (case fetch_folders self user_id notebook_id of
             (Inl e, cs) \<Rightarrow> (Inl e, Repo_list_by_user_id user_id notebook_id # cs)
           | (Inr folders, cs) \<Rightarrow>
               (case add_folders room (base_folder_of notebook_name) folders folders [] of
                  Inl e \<Rightarrow> (Inl e, Repo_list_by_user_id user_id notebook_id # cs)
                | Inr zipf \<Rightarrow>
                    (case foldl (add_file self room (base_folder_of notebook_name) folders)
                            (zipf, Repo_list_by_user_id user_id notebook_id # cs) files of
                       (zipf', calls) \<Rightarrow> (Inr zipf', calls)))))"

text \<open>
  The entry one file contributes to the archive, read off the claim about per-file
  failures: none when resolving its content, resolving its entry name or writing the
  entry raises, otherwise the stored name with the resolved bytes. It is compared with
  the loop of the source below.
\<close>

definition archived_entry ::
  "service \<Rightarrow> nat \<Rightarrow> pystr \<Rightarrow> folder list \<Rightarrow> file_record \<Rightarrow> entry option" where
  "archived_entry self room base_folder folders f =
     (case fst (file_content self f) of
        Inl e \<Rightarrow> None
      | Inr data \<Rightarrow>
          (case file_zip_path room base_folder folders f of
             Inl e \<Rightarrow> None
           | Inr zip_path \<Rightarrow>
               if writable zip_path then Some (stored_name zip_path, data) else None))"

section \<open>Example inputs\<close>

definition cyc_a :: folder where
  "cyc_a = \<lparr>f_id = StrId (lit ''a''), name = lit ''A'', parent_id = Some (StrId (lit ''b''))\<rparr>"

definition cyc_b :: folder where
  "cyc_b = \<lparr>f_id = StrId (lit ''b''), name = lit ''B'', parent_id = Some (StrId (lit ''a''))\<rparr>"

definition ex_root :: folder where
  "ex_root = \<lparr>f_id = UuidObj (lit ''r''), name = lit ''Resources'', parent_id = None\<rparr>"

definition ex_child :: folder where
  "ex_child = \<lparr>f_id = UuidObj (lit ''c''), name = lit ''Notes'', parent_id = Some (StrId (lit ''r''))\<rparr>"

definition ex_unnamed :: folder where
  "ex_unnamed = \<lparr>f_id = UuidObj (lit ''u''), name = [], parent_id = Some (UuidObj (lit ''r''))\<rparr>"

definition ex_orphan :: folder where
  "ex_orphan = \<lparr>f_id = UuidObj (lit ''o''), name = lit ''Lost'', parent_id = Some (UuidObj (lit ''gone''))\<rparr>"

definition ex_leaf :: folder where
  "ex_leaf = \<lparr>f_id = UuidObj (lit ''l''), name = lit ''Leaf'', parent_id = Some (UuidObj (lit ''u''))\<rparr>"

definition ex_inline :: file_record where
  "ex_inline = \<lparr>filename = lit ''a.md'', unique_filename = Some (lit ''k-a''),
     content = Some (Text (lit ''hello'')), folder_id = None\<rparr>"

definition ex_blob :: file_record where
  "ex_blob = \<lparr>filename = lit ''b.md'', unique_filename = Some (lit ''k-b''),
     content = None, folder_id = Some (StrId (lit ''r''))\<rparr>"

definition ex_missing :: file_record where
  "ex_missing = \<lparr>filename = lit ''missing.wav'', unique_filename = Some (lit ''missing.wav''),
     content = Some (Text []), folder_id = Some (StrId (lit ''nowhere''))\<rparr>"

definition ex_surrogate :: file_record where
  "ex_surrogate = \<lparr>filename = lit ''s.txt'', unique_filename = Some (lit ''k-s''),
     content = Some (Text [55296]), folder_id = None\<rparr>"





definition ex_store :: "pystr \<Rightarrow> py_error + pybytes" where
  "ex_store key = (if key = lit ''k-b'' then Inr [1, 2, 3] else Inl ClientError)"

definition ex_list_files :: "pystr \<Rightarrow> pystr \<Rightarrow> py_error + file_record list" where
  "ex_list_files user_id notebook_id = Inr [ex_inline, ex_surrogate, ex_blob, ex_missing]"

definition ex_list_folders :: "pystr \<Rightarrow> pystr \<Rightarrow> py_error + folder list" where
  "ex_list_folders user_id notebook_id = Inr [ex_root]"

definition ex_service :: service where
  "ex_service = \<lparr>repo_list_by_user_id = ex_list_files, folder_repo = Some ex_list_folders,
     s3_client = Some ex_store\<rparr>"

definition ex_service_no_s3 :: service where
  "ex_service_no_s3 = \<lparr>repo_list_by_user_id = ex_list_files, folder_repo = Some ex_list_folders,
     s3_client = None\<rparr>"








section \<open>The sanitizer\<close>

lemma replace_char_removes: "new \<noteq> old \<Longrightarrow> old \<notin> set (replace_char old new s)"
  by (auto simp: replace_char_def)

lemma replace_char_keeps_absent:
  "c \<notin> set s \<Longrightarrow> c \<noteq> new \<Longrightarrow> c \<notin> set (replace_char old new s)"
  by (auto simp: replace_char_def)

lemma replace_char_absent: "old \<notin> set s \<Longrightarrow> replace_char old new s = s"
  by (induction s) (auto simp: replace_char_def)

lemma replace_all_removes:
  assumes "new \<notin> set chs"
  shows "\<forall>c\<in>set chs. c \<notin> set (foldl (\<lambda>fn ch. replace_char ch new fn) s chs)"
  using assms
proof (induction chs rule: rev_induct)
  case Nil
  then show ?case by simp
next
  case (snoc ch chs)
  then have nch: "new \<noteq> ch" and IH: "\<forall>c\<in>set chs. c \<notin> set (foldl (\<lambda>fn ch. replace_char ch new fn) s chs)"
    by auto
  show ?case
  proof
    fix c assume "c \<in> set (chs @ [ch])"
    then consider "c = ch" | "c \<in> set chs" "c \<noteq> ch" by auto
    then show "c \<notin> set (foldl (\<lambda>fn ch. replace_char ch new fn) s (chs @ [ch]))"
    proof cases
      case 1
      with nch show ?thesis by (simp add: replace_char_removes)
    next
      case 2
      from 2(1) IH have "c \<notin> set (foldl (\<lambda>fn ch. replace_char ch new fn) s chs)" by blast
      moreover from 2(1) snoc.prems have "c \<noteq> new" by auto
      ultimately have "c \<notin> set (replace_char ch new (foldl (\<lambda>fn ch. replace_char ch new fn) s chs))"
        by (rule replace_char_keeps_absent)
      then show ?thesis by simp
    qed
  qed
qed

lemma replace_all_absent:
  "set chs \<inter> set s = {} \<Longrightarrow> foldl (\<lambda>fn ch. replace_char ch new fn) s chs = s"
  by (induction chs arbitrary: s) (auto simp: replace_char_absent)

lemma set_strip: "set (strip s) \<subseteq> set s"
proof -
  have "set (strip s) \<subseteq> set (dropWhile py_isspace s)"
    unfolding strip_def using set_dropWhileD[of _ py_isspace "rev (dropWhile py_isspace s)"] by auto
  also have "\<dots> \<subseteq> set s" using set_dropWhileD[of _ py_isspace s] by auto
  finally show ?thesis .
qed

lemma strip_idem: "strip (strip s) = strip s"
proof -
  define t where "t = dropWhile py_isspace s"
  define u where "u = dropWhile py_isspace (rev t)"
  have st: "strip s = rev u" by (simp add: strip_def t_def u_def)
  have t: "t = rev u @ rev (takeWhile py_isspace (rev t))"
  proof -
    have "rev t = takeWhile py_isspace (rev t) @ u" by (simp add: u_def)
    then have "rev (rev t) = rev (takeWhile py_isspace (rev t) @ u)" by simp
    then show ?thesis by simp
  qed
  have front: "dropWhile py_isspace (rev u) = rev u"
  proof (cases "u = []")
    case True
    then show ?thesis by simp
  next
    case False
    then have ne: "rev u \<noteq> []" by simp
    with t have "hd (rev u) = hd t" by (metis hd_append2)
    moreover from t False have "t \<noteq> []" by auto
    then have "\<not> py_isspace (hd t)" unfolding t_def by (rule hd_dropWhile)
    ultimately have "\<not> py_isspace (hd (rev u))" by simp
    with ne show ?thesis by (cases "rev u") auto
  qed
  have rear: "dropWhile py_isspace u = u" by (simp add: u_def)
  have "strip (rev u) = rev (dropWhile py_isspace (rev (dropWhile py_isspace (rev u))))"
    by (simp add: strip_def)
  also have "\<dots> = rev u" by (simp add: front rear)
  finally show ?thesis by (simp add: st)
qed

lemma underscore_valid: "of_char CHR ''_'' \<notin> set invalid_chars"
  by (simp add: invalid_chars_def)

lemma sanitize_filename_clean: "set invalid_chars \<inter> set (sanitize_filename x) = {}"
proof -
  have "\<forall>c\<in>set invalid_chars.
          c \<notin> set (foldl (\<lambda>fn ch. replace_char ch (of_char CHR ''_'') fn) x invalid_chars)"
    using underscore_valid by (rule replace_all_removes)
  with set_strip show ?thesis unfolding sanitize_filename_def by blast
qed

text \<open>
  C7. Sanitizing twice is sanitizing once, and none of the nine characters
  \<open>< > : " / \ | ? *\<close> (code points 60, 62, 58, 34, 47, 92, 124, 63, 42) occurs
  in a sanitized name.
\<close>

theorem sanitize_filename_idempotent_and_clean:
  "sanitize_filename (sanitize_filename x) = sanitize_filename x \<and>
   set (sanitize_filename x) \<inter> set invalid_chars = {} \<and>
   set invalid_chars = {60, 62, 58, 34, 47, 92, 124, 63, 42}"
proof -
  have c: "set invalid_chars \<inter> set (sanitize_filename x) = {}" by (rule sanitize_filename_clean)
  have "sanitize_filename (sanitize_filename x) = strip (sanitize_filename x)"
    unfolding sanitize_filename_def[of "sanitize_filename x"] using c by (simp add: replace_all_absent)
  also have "\<dots> = sanitize_filename x" by (simp add: sanitize_filename_def strip_idem)
  finally show ?thesis using c by (auto simp: invalid_chars_def)
qed

lemma sanitize_filename_example:
  "sanitize_filename (lit '' a/b: c? '') = lit ''a_b_ c_''"
  by (simp add: sanitize_filename_def strip_def replace_char_def invalid_chars_def lit_def
      py_isspace_def)

section \<open>Content resolution\<close>


lemma get_file_bytes_from_s3_calls:
  "set (snd (get_file_bytes_from_s3 self key)) \<subseteq> {S3_get_object key}"
  by (simp add: get_file_bytes_from_s3_def split: option.splits sum.splits)



lemma file_content_blob:
  assumes "\<not> truthy_content (content f)" and "truthy_str (unique_filename f)"
  shows "file_content self f =
           (Inr (case s3_client self of
                   None \<Rightarrow> []
                 | Some get_object \<Rightarrow>
                     (case get_object (the (unique_filename f)) of Inr body \<Rightarrow> body | Inl e \<Rightarrow> [])),
            case s3_client self of None \<Rightarrow> [] | Some get_object \<Rightarrow> [S3_get_object (the (unique_filename f))])"
  using assms
  by (simp add: file_content_def get_file_bytes_from_s3_def split: option.splits sum.splits)

lemma file_content_none:
  "\<not> truthy_content (content f) \<Longrightarrow> \<not> truthy_str (unique_filename f) \<Longrightarrow>
   file_content self f = (Inr [], [])"
  by (simp add: file_content_def)


lemma file_content_calls:
  "set (snd (file_content self f)) \<subseteq> range S3_get_object"
proof (cases "truthy_content (content f)")
  case True
  then obtain c where c: "content f = Some c" by (cases "content f") auto
  with True show ?thesis by (cases c) (simp_all add: file_content_def)
next
  case False
  show ?thesis
  proof (cases "truthy_str (unique_filename f)")
    case True
    with False show ?thesis by (auto simp: file_content_blob split: option.splits)
  next
    case nk: False
    with False show ?thesis by (simp add: file_content_none)
  qed
qed





section \<open>The folder path resolver\<close>

lemma get_folder_path_root:
  assumes "\<not> truthy_id (parent_id G) \<or> find_folder al (the (parent_id G)) = None"
  shows "get_folder_path room G al path =
           Inr (if path = [] then name G else name G @ lit ''/'' @ path)"
  using assms by (subst get_folder_path.simps) (auto simp: Let_def)

lemma get_folder_path_zero:
  assumes "truthy_id (parent_id G)" and "find_folder al (the (parent_id G)) = Some P"
  shows "get_folder_path 0 G al path = Inl RecursionError"
  using assms by (subst get_folder_path.simps) (simp add: Let_def)

lemma get_folder_path_step:
  assumes "truthy_id (parent_id G)" and "find_folder al (the (parent_id G)) = Some P"
  shows "get_folder_path (Suc room) G al path =
           get_folder_path room P al (if path = [] then name G else name G @ lit ''/'' @ path)"
  using assms by (subst get_folder_path.simps) (simp add: Let_def)

lemma folder_cases:
  fixes G :: folder
  obtains (root) "\<not> truthy_id (parent_id G) \<or> find_folder al (the (parent_id G)) = None"
  | (child) P where "truthy_id (parent_id G)" "find_folder al (the (parent_id G)) = Some P"
  by (cases "find_folder al (the (parent_id G))") auto

text \<open>A non-empty path so far is carried to the result unchanged, as a suffix.\<close>

lemma get_folder_path_append:
  "s \<noteq> [] \<Longrightarrow>
   get_folder_path room G al (s @ t) =
     (case get_folder_path room G al s of Inl e \<Rightarrow> Inl e | Inr r \<Rightarrow> Inr (r @ t))"
proof (induction room arbitrary: G s)
  case 0
  show ?case
  proof (cases rule: folder_cases[of G al])
    case root
    with 0 show ?thesis by (simp add: get_folder_path_root)
  next
    case (child P)
    then show ?thesis by (simp add: get_folder_path_zero)
  qed
next
  case (Suc room)
  show ?case
  proof (cases rule: folder_cases[of G al])
    case root
    with Suc.prems show ?thesis by (simp add: get_folder_path_root)
  next
    case (child P)
    have "get_folder_path room P al ((name G @ lit ''/'' @ s) @ t) =
            (case get_folder_path room P al (name G @ lit ''/'' @ s) of
               Inl e \<Rightarrow> Inl e | Inr r \<Rightarrow> Inr (r @ t))"
      by (rule Suc.IH) (simp add: lit_def)
    with child Suc.prems show ?thesis by (simp add: get_folder_path_step)
  qed
qed

text \<open>With a non-empty path so far, the result is the folder's own path, then the rest.\<close>

lemma get_folder_path_nonempty:
  assumes "path \<noteq> []"
    and "name G \<noteq> [] \<or> \<not> truthy_id (parent_id G) \<or> find_folder al (the (parent_id G)) = None"
  shows "get_folder_path room G al path =
           (case get_folder_path room G al [] of
              Inl e \<Rightarrow> Inl e | Inr p \<Rightarrow> Inr (p @ lit ''/'' @ path))"
proof (cases rule: folder_cases[of G al])
  case root
  with assms(1) show ?thesis by (simp add: get_folder_path_root)
next
  case (child P)
  with assms(2) have ne: "name G \<noteq> []" by auto
  show ?thesis
  proof (cases room)
    case 0
    with child show ?thesis by (simp add: get_folder_path_zero)
  next
    case (Suc r)
    have "get_folder_path r P al (name G @ lit ''/'' @ path) =
            (case get_folder_path r P al (name G) of
               Inl e \<Rightarrow> Inl e | Inr p \<Rightarrow> Inr (p @ lit ''/'' @ path))"
      using ne by (rule get_folder_path_append)
    with child assms(1) Suc show ?thesis by (simp add: get_folder_path_step)
  qed
qed

text \<open>More room never changes a path that is returned.\<close>

lemma get_folder_path_more_room:
  "get_folder_path room G al path = Inr p \<Longrightarrow> get_folder_path (Suc room) G al path = Inr p"
proof (induction room arbitrary: G path)
  case 0
  show ?case
  proof (cases rule: folder_cases[of G al])
    case root
    with 0 show ?thesis by (simp add: get_folder_path_root)
  next
    case (child P)
    with 0 show ?thesis by (simp add: get_folder_path_zero)
  qed
next
  case (Suc room)
  show ?case
  proof (cases rule: folder_cases[of G al])
    case root
    with Suc.prems show ?thesis by (simp add: get_folder_path_root)
  next
    case (child P)
    with Suc.prems
    have "get_folder_path room P al (if path = [] then name G else name G @ lit ''/'' @ path) = Inr p"
      by (simp add: get_folder_path_step)
    then have "get_folder_path (Suc room) P al (if path = [] then name G else name G @ lit ''/'' @ path) = Inr p"
      by (rule Suc.IH)
    with child show ?thesis by (simp add: get_folder_path_step)
  qed
qed

lemma ancestor_Suc_parent:
  assumes "truthy_id (parent_id G)" and "find_folder al (the (parent_id G)) = Some P"
  shows "ancestor (Suc k) al G = ancestor k al P"
  using assms by (simp add: parent_of_def)

lemma ancestor_one:
  assumes "ancestor (Suc 0) al G \<noteq> None"
  obtains P where "truthy_id (parent_id G)" "find_folder al (the (parent_id G)) = Some P"
  using assms by (auto simp: parent_of_def split: if_splits option.splits)

text \<open>A parent chain that never ends uses up any room.\<close>

lemma endless_chain_raises:
  "(\<forall>k. ancestor k al G \<noteq> None) \<Longrightarrow> get_folder_path room G al path = Inl RecursionError"
proof (induction room arbitrary: G path)
  case 0
  then have "ancestor (Suc 0) al G \<noteq> None" by blast
  then obtain P where "truthy_id (parent_id G)" "find_folder al (the (parent_id G)) = Some P"
    by (rule ancestor_one)
  then show ?case by (rule get_folder_path_zero)
next
  case (Suc room)
  then have "ancestor (Suc 0) al G \<noteq> None" by blast
  then obtain P where P: "truthy_id (parent_id G)" "find_folder al (the (parent_id G)) = Some P"
    by (rule ancestor_one)
  have "\<forall>k. ancestor k al P \<noteq> None"
  proof
    fix k
    from Suc.prems have "ancestor (Suc k) al G \<noteq> None" by blast
    then show "ancestor k al P \<noteq> None" unfolding ancestor_Suc_parent[OF P] .
  qed
  then have "get_folder_path room P al (if path = [] then name G else name G @ lit ''/'' @ path) =
      Inl RecursionError"
    by (rule Suc.IH)
  with P show ?case by (simp add: get_folder_path_step)
qed

lemma ancestor_add:
  "ancestor (m + n) al G = (case ancestor m al G of None \<Rightarrow> None | Some A \<Rightarrow> ancestor n al A)"
  by (induction m arbitrary: G) (auto split: option.splits)

lemma cycle_repeats: "ancestor n al G = Some G \<Longrightarrow> ancestor (m * n) al G = Some G"
  by (induction m) (simp_all add: ancestor_add)

lemma cycle_endless:
  assumes "0 < n" and "ancestor n al G = Some G"
  shows "ancestor k al G \<noteq> None"
proof
  assume none: "ancestor k al G = None"
  from assms(1) have "k \<le> k * n" by simp
  then have "k * n = k + (k * n - k)" by simp
  then have "ancestor (k * n) al G =
      (case ancestor k al G of None \<Rightarrow> None | Some A \<Rightarrow> ancestor (k * n - k) al A)"
    using ancestor_add[of k "k * n - k" al G] by simp
  with none have "ancestor (k * n) al G = None" by simp
  with cycle_repeats[OF assms(2), of k] show False by simp
qed

lemmas example_folders = cyc_a_def cyc_b_def ex_root_def ex_child_def ex_unnamed_def
  ex_orphan_def ex_leaf_def find_folder_def lit_def

lemma cyc_lookup:
  "truthy_id (parent_id cyc_a)" "find_folder [cyc_a, cyc_b] (the (parent_id cyc_a)) = Some cyc_b"
  "truthy_id (parent_id cyc_b)" "find_folder [cyc_a, cyc_b] (the (parent_id cyc_b)) = Some cyc_a"
  by (simp_all add: example_folders)

lemma ex_root_path: "get_folder_path room ex_root al [] = Inr (lit ''Resources'')"
  by (subst get_folder_path.simps) (simp add: ex_root_def)

lemma cyc_ancestor: "ancestor 2 [cyc_a, cyc_b] cyc_a = Some cyc_a"
  by (simp add: numeral_2_eq_2 parent_of_def cyc_lookup)

lemma cyc_raises: "get_folder_path room cyc_a [cyc_a, cyc_b] path = Inl RecursionError"
proof (rule endless_chain_raises, rule allI)
  fix k show "ancestor k [cyc_a, cyc_b] cyc_a \<noteq> None"
    by (rule cycle_endless[OF _ cyc_ancestor]) simp
qed

text \<open>
  C1 (as amended). For a folder on a cyclic parent chain (some positive number of parent
  moves leads back to it, as with A.parent = B and B.parent = A), the resolver does
  terminate, cut by the interpreter's recursion limit, but returns no fallback path: it
  raises \<open>RecursionError\<close>, whatever room the limit leaves.
\<close>

theorem cyclic_chain_raises:
  assumes "0 < n" and "ancestor n al G = Some G"
  shows "get_folder_path room G al path = Inl RecursionError"
proof (rule endless_chain_raises, rule allI)
  fix k show "ancestor k al G \<noteq> None" using assms by (rule cycle_endless)
qed

theorem cyclic_chain_raises_witness:
  "(0::nat) < 2 \<and> ancestor 2 [cyc_a, cyc_b] cyc_a = Some cyc_a \<and>
   get_folder_path 1000 cyc_a [cyc_a, cyc_b] [] = Inl RecursionError"
proof -
  have p: "(0::nat) < 2" by simp
  from cyclic_chain_raises[OF p cyc_ancestor, of 1000 "[]"] p cyc_ancestor show ?thesis by simp
qed

text \<open>
  C1 as stated fails: for two folders that name each other as parent, the resolver
  returns no path; the call ends in \<open>RecursionError\<close>.
\<close>

theorem cyclic_chain_no_fallback:
  "get_folder_path 1000 cyc_a [cyc_a, cyc_b] [] = Inl RecursionError"
  by (rule cyc_raises)

text \<open>
  C3 (as amended). Let the true parent reference of F match the folder P of the set.
  Resolving F takes one nested call more than resolving P: with no room for a nested call
  it raises \<open>RecursionError\<close>; with room for one more, it is decided by the resolution of
  P. For an empty name of F the result is that of P, with no separator appended. For a
  non-empty name of F, where P has a non-empty name or is itself treated as a root, it
  is the path of P, a slash and the name of F, or the exception P raises. A path that P
  returns is returned with more room as well.
\<close>

theorem resolve_path_child:
  assumes "truthy_id (parent_id F)" and "find_folder al (the (parent_id F)) = Some P"
  shows "get_folder_path 0 F al [] = Inl RecursionError \<and>
     (name F = [] \<longrightarrow> get_folder_path (Suc room) F al [] = get_folder_path room P al []) \<and>
     (name F \<noteq> [] \<and>
      (name P \<noteq> [] \<or> \<not> truthy_id (parent_id P) \<or> find_folder al (the (parent_id P)) = None) \<longrightarrow>
        get_folder_path (Suc room) F al [] =
          (case get_folder_path room P al [] of
             Inl e \<Rightarrow> Inl e
           | Inr p \<Rightarrow> Inr (p @ lit ''/'' @ name F))) \<and>
     (\<forall>p. get_folder_path room P al [] = Inr p \<longrightarrow> get_folder_path (Suc room) P al [] = Inr p)"
proof (intro conjI impI allI)
  show "get_folder_path 0 F al [] = Inl RecursionError"
    using assms by (rule get_folder_path_zero)
  show "get_folder_path (Suc room) F al [] = get_folder_path room P al []" if "name F = []"
    using assms that by (simp add: get_folder_path_step)
  show "get_folder_path (Suc room) F al [] =
          (case get_folder_path room P al [] of
             Inl e \<Rightarrow> Inl e
           | Inr p \<Rightarrow> Inr (p @ lit ''/'' @ name F))"
    if h: "name F \<noteq> [] \<and>
      (name P \<noteq> [] \<or> \<not> truthy_id (parent_id P) \<or> find_folder al (the (parent_id P)) = None)"
  proof -
    have "get_folder_path (Suc room) F al [] = get_folder_path room P al (name F)"
      using assms by (simp add: get_folder_path_step)
    also have "\<dots> = (case get_folder_path room P al [] of
             Inl e \<Rightarrow> Inl e
           | Inr p \<Rightarrow> Inr (p @ lit ''/'' @ name F))"
      using h by (intro get_folder_path_nonempty) simp_all
    finally show ?thesis .
  qed
  show "get_folder_path (Suc room) P al [] = Inr p" if "get_folder_path room P al [] = Inr p" for p
    using that by (rule get_folder_path_more_room)
qed

theorem resolve_path_child_witness:
  "truthy_id (parent_id ex_child) \<and>
   find_folder [ex_root, ex_child] (the (parent_id ex_child)) = Some ex_root \<and>
   name ex_child \<noteq> [] \<and> name ex_root \<noteq> [] \<and>
   get_folder_path 0 ex_root [ex_root, ex_child] [] = Inr (lit ''Resources'') \<and>
   get_folder_path 0 ex_child [ex_root, ex_child] [] = Inl RecursionError \<and>
   get_folder_path (Suc 0) ex_child [ex_root, ex_child] [] = Inr (lit ''Resources/Notes'') \<and>
   get_folder_path (Suc 0) ex_root [ex_root, ex_child] [] = Inr (lit ''Resources'') \<and>
   truthy_id (parent_id ex_unnamed) \<and>
   find_folder [ex_root, ex_unnamed] (the (parent_id ex_unnamed)) = Some ex_root \<and>
   name ex_unnamed = [] \<and>
   get_folder_path (Suc 0) ex_unnamed [ex_root, ex_unnamed] [] = Inr (lit ''Resources'')"
proof -
  have h: "truthy_id (parent_id ex_child)"
    "find_folder [ex_root, ex_child] (the (parent_id ex_child)) = Some ex_root"
    by (simp_all add: example_folders)
  have n: "name ex_child \<noteq> []" "name ex_root \<noteq> []" by (simp_all add: example_folders)
  have r: "get_folder_path 0 ex_root [ex_root, ex_child] [] = Inr (lit ''Resources'')"
    by (rule ex_root_path)
  note t = resolve_path_child[OF h, of 0]
  from t have z: "get_folder_path 0 ex_child [ex_root, ex_child] [] = Inl RecursionError"
    by (rule conjunct1)
  from t n have "get_folder_path (Suc 0) ex_child [ex_root, ex_child] [] =
          (case get_folder_path 0 ex_root [ex_root, ex_child] [] of
             Inl e \<Rightarrow> Inl e
           | Inr p \<Rightarrow> Inr (p @ lit ''/'' @ name ex_child))"
    by blast
  then have c: "get_folder_path (Suc 0) ex_child [ex_root, ex_child] [] = Inr (lit ''Resources/Notes'')"
    by (simp add: r) (simp add: example_folders)
  from t r have m: "get_folder_path (Suc 0) ex_root [ex_root, ex_child] [] = Inr (lit ''Resources'')"
    by blast
  have hu: "truthy_id (parent_id ex_unnamed)"
    "find_folder [ex_root, ex_unnamed] (the (parent_id ex_unnamed)) = Some ex_root"
    by (simp_all add: example_folders)
  have nu: "name ex_unnamed = []" by (simp add: ex_unnamed_def)
  have ru: "get_folder_path 0 ex_root [ex_root, ex_unnamed] [] = Inr (lit ''Resources'')"
    by (rule ex_root_path)
  from resolve_path_child[OF hu, of 0] nu
  have "get_folder_path (Suc 0) ex_unnamed [ex_root, ex_unnamed] [] =
      get_folder_path 0 ex_root [ex_root, ex_unnamed] []"
    by blast
  with ru have u: "get_folder_path (Suc 0) ex_unnamed [ex_root, ex_unnamed] [] = Inr (lit ''Resources'')"
    by simp
  from h n r z c m hu nu u show ?thesis by blast
qed

text \<open>
  C3 as stated fails for the empty name: the path of an unnamed folder is the path of its
  parent, with no separator appended.
\<close>

theorem empty_name_drops_separator:
  "truthy_id (parent_id ex_unnamed) \<and>
   find_folder [ex_root, ex_unnamed] (the (parent_id ex_unnamed)) = Some ex_root \<and>
   get_folder_path 1000 ex_root [ex_root, ex_unnamed] [] = Inr (lit ''Resources'') \<and>
   get_folder_path 1000 ex_unnamed [ex_root, ex_unnamed] [] = Inr (lit ''Resources'') \<and>
   lit ''Resources'' \<noteq> lit ''Resources'' @ lit ''/'' @ name ex_unnamed"
proof -
  have hu: "truthy_id (parent_id ex_unnamed)"
    "find_folder [ex_root, ex_unnamed] (the (parent_id ex_unnamed)) = Some ex_root"
    by (simp_all add: example_folders)
  have r: "get_folder_path room ex_root [ex_root, ex_unnamed] [] = Inr (lit ''Resources'')" for room
    by (rule ex_root_path)
  have k: "(1000::nat) = Suc 999" by simp
  have "get_folder_path 1000 ex_unnamed [ex_root, ex_unnamed] [] =
      get_folder_path 999 ex_root [ex_root, ex_unnamed]
        (if ([]::pystr) = [] then name ex_unnamed else name ex_unnamed @ lit ''/'' @ [])"
    unfolding k by (rule get_folder_path_step[OF hu])
  also have "\<dots> = get_folder_path 999 ex_root [ex_root, ex_unnamed] []"
    by (simp add: ex_unnamed_def)
  finally have u: "get_folder_path 1000 ex_unnamed [ex_root, ex_unnamed] [] = Inr (lit ''Resources'')"
    by (simp only: r)
  have "lit ''Resources'' \<noteq> lit ''Resources'' @ lit ''/'' @ name ex_unnamed"
    by (simp add: lit_def)
  with hu r u show ?thesis by blast
qed

text \<open>
  An unnamed folder between a named folder and its grandparent: the named folder's path
  has two separators where the parent's path has no segment at all.
\<close>

lemma unnamed_parent_doubles_separator:
  "get_folder_path 2 ex_unnamed [ex_root, ex_unnamed, ex_leaf] [] = Inr (lit ''Resources'') \<and>
   get_folder_path 2 ex_leaf [ex_root, ex_unnamed, ex_leaf] [] = Inr (lit ''Resources//Leaf'')"
  by (simp add: get_folder_path.simps example_folders numeral_2_eq_2)

text \<open>
  C4. A folder with no parent reference, and a folder whose parent reference matches no
  folder of the set, resolve to their own name; a path is returned, nothing is raised.
\<close>

theorem resolve_path_root:
  assumes "parent_id F = None \<or> (\<exists>pid. parent_id F = Some pid \<and> find_folder al pid = None)"
  shows "get_folder_path room F al [] = Inr (name F)"
proof -
  from assms have "\<not> truthy_id (parent_id F) \<or> find_folder al (the (parent_id F)) = None"
    by auto
  then show ?thesis by (simp add: get_folder_path_root)
qed

theorem resolve_path_root_witness:
  "parent_id ex_root = None \<and>
   get_folder_path 0 ex_root [ex_root, ex_orphan] [] = Inr (name ex_root) \<and>
   parent_id ex_orphan = Some (UuidObj (lit ''gone'')) \<and>
   find_folder [ex_root, ex_orphan] (UuidObj (lit ''gone'')) = None \<and>
   get_folder_path 0 ex_orphan [ex_root, ex_orphan] [] = Inr (name ex_orphan)"
proof -
  have a: "parent_id ex_root = None" by (simp add: example_folders)
  have b: "parent_id ex_orphan = Some (UuidObj (lit ''gone''))"
    "find_folder [ex_root, ex_orphan] (UuidObj (lit ''gone'')) = None"
    by (simp_all add: example_folders)
  from a have "get_folder_path 0 ex_root [ex_root, ex_orphan] [] = Inr (name ex_root)"
    by (intro resolve_path_root) simp
  moreover from b have "get_folder_path 0 ex_orphan [ex_root, ex_orphan] [] = Inr (name ex_orphan)"
    by (intro resolve_path_root) simp
  ultimately show ?thesis using a b by simp
qed

section \<open>Entry names and the loops of the export\<close>

lemma writestr_writable:
  "writable arcname \<Longrightarrow> writestr zipf arcname data = Inr (zipf @ [(stored_name arcname, data)])"
  by (simp add: writestr_def writable_def)

lemma writestr_raises: "\<not> writable arcname \<Longrightarrow> \<exists>e. writestr zipf arcname data = Inl e"
  by (auto simp: writestr_def writable_def)

lemma stored_name_no_nul: "0 \<notin> set arcname \<Longrightarrow> stored_name arcname = arcname"
  by (induction arcname) (auto simp: stored_name_def)

lemma stored_name_append:
  "stored_name (a @ b) = (if 0 \<in> set a then stored_name a else a @ stored_name b)"
  by (induction a) (auto simp: stored_name_def)



lemma file_zip_path_prefix: "file_zip_path room base folders f = Inr p \<Longrightarrow> \<exists>rest. p = base @ rest"
  by (auto simp: file_zip_path_def split: if_splits option.splits sum.splits)



lemma add_file_entry:
  "add_file self room base folders (zipf, calls) f =
     (zipf @ (case archived_entry self room base folders f of None \<Rightarrow> [] | Some e \<Rightarrow> [e]),
      calls @ snd (file_content self f))"
proof (cases "file_content self f")
  case (Pair r cs)
  show ?thesis
  proof (cases r)
    case (Inl e)
    with Pair show ?thesis by (simp add: add_file_def archived_entry_def)
  next
    case (Inr data)
    show ?thesis
    proof (cases "file_zip_path room base folders f")
      case l: (Inl e)
      with Pair Inr show ?thesis by (simp add: add_file_def archived_entry_def)
    next
      case p: (Inr p)
      show ?thesis
      proof (cases "writable p")
        case True
        with Pair Inr p show ?thesis
          by (simp add: add_file_def archived_entry_def writestr_writable)
      next
        case False
        then obtain e where "writestr zipf p data = Inl e" using writestr_raises by blast
        with False Pair Inr p show ?thesis by (simp add: add_file_def archived_entry_def)
      qed
    qed
  qed
qed

lemma add_files_entries:
  "foldl (add_file self room base folders) (zipf, calls) files =
     (zipf @ List.map_filter (archived_entry self room base folders) files,
      calls @ concat (map (\<lambda>f. snd (file_content self f)) files))"
proof (induction files arbitrary: zipf calls)
  case Nil
  then show ?case by (simp add: map_filter_simps)
next
  case (Cons f files)
  then show ?case
    by (simp add: add_file_entry map_filter_simps split: option.splits)
qed

text \<open>The directory entry of a folder whose path resolves.\<close>

lemma add_folders_returns:
  assumes "\<forall>folder\<in>set fs. \<exists>p. get_folder_path room folder al [] = Inr p \<and>
             writable (base @ p @ lit ''/'')"
  shows "add_folders room base al fs zipf =
           Inr (zipf @ map (\<lambda>folder.
                  (stored_name (base @ (case get_folder_path room folder al [] of
                                          Inr p \<Rightarrow> p | Inl e \<Rightarrow> []) @ lit ''/''),
                   [])) fs)"
  using assms
proof (induction fs arbitrary: zipf)
  case Nil
  then show ?case by simp
next
  case (Cons folder fs)
  then obtain p where p: "get_folder_path room folder al [] = Inr p"
    and w: "writable (base @ p @ lit ''/'')" by auto
  from Cons have "add_folders room base al fs (zipf @ [(stored_name (base @ p @ lit ''/''), [])]) =
      Inr ((zipf @ [(stored_name (base @ p @ lit ''/''), [])]) @ map (\<lambda>folder.
                  (stored_name (base @ (case get_folder_path room folder al [] of
                                          Inr p \<Rightarrow> p | Inl e \<Rightarrow> []) @ lit ''/''),
                   [])) fs)"
    by simp
  with p w show ?case by (simp add: writestr_writable)
qed

lemma add_folders_raises:
  assumes "\<exists>folder\<in>set fs. \<forall>p. get_folder_path room folder al [] = Inr p \<longrightarrow>
             \<not> writable (base @ p @ lit ''/'')"
  shows "\<exists>e. add_folders room base al fs zipf = Inl e"
  using assms
proof (induction fs arbitrary: zipf)
  case Nil
  then show ?case by simp
next
  case (Cons folder fs)
  show ?case
  proof (cases "get_folder_path room folder al []")
    case (Inl e)
    then show ?thesis by simp
  next
    case (Inr p)
    show ?thesis
    proof (cases "writable (base @ p @ lit ''/'')")
      case False
      then obtain e where "writestr zipf (base @ p @ lit ''/'') [] = Inl e"
        using writestr_raises by blast
      with Inr show ?thesis by simp
    next
      case True
      with Inr Cons.prems
      have "\<exists>folder\<in>set fs. \<forall>p. get_folder_path room folder al [] = Inr p \<longrightarrow>
             \<not> writable (base @ p @ lit ''/'')"
        by auto
      from Cons.IH[OF this] Inr True show ?thesis by (simp add: writestr_writable)
    qed
  qed
qed

lemma add_folders_Inr_paths:
  assumes "add_folders room base al fs zipf = Inr dirs"
  shows "\<forall>folder\<in>set fs. \<exists>p. get_folder_path room folder al [] = Inr p \<and>
           writable (base @ p @ lit ''/'')"
proof (rule ccontr)
  assume "\<not> (\<forall>folder\<in>set fs. \<exists>p. get_folder_path room folder al [] = Inr p \<and>
           writable (base @ p @ lit ''/''))"
  then have "\<exists>folder\<in>set fs. \<forall>p. get_folder_path room folder al [] = Inr p \<longrightarrow>
             \<not> writable (base @ p @ lit ''/'')"
    by blast
  from add_folders_raises[OF this, of zipf] assms show False by auto
qed

lemma export_unfold:
  assumes "repo_list_by_user_id self user_id notebook_id = Inr files"
    and "fst (fetch_folders self user_id notebook_id) = Inr folders"
  shows "export_notebook_as_zip self room user_id notebook_id nn =
    (case add_folders room (base_folder_of nn) folders folders [] of
       Inl e \<Rightarrow> (Inl e, Repo_list_by_user_id user_id notebook_id # snd (fetch_folders self user_id notebook_id))
     | Inr zipf \<Rightarrow>
        (Inr (zipf @ List.map_filter (archived_entry self room (base_folder_of nn) folders) files),
         (Repo_list_by_user_id user_id notebook_id # snd (fetch_folders self user_id notebook_id))
           @ concat (map (\<lambda>f. snd (file_content self f)) files)))"
  using assms
  by (cases "fetch_folders self user_id notebook_id")
     (simp add: export_notebook_as_zip_def add_files_entries split: sum.splits)

lemma fetch_folders_calls:
  "set (snd (fetch_folders self user_id notebook_id)) \<subseteq> {Folder_repo_list_by_notebook user_id notebook_id}"
  by (simp add: fetch_folders_def split: option.splits)

lemma export_call_trace:
  "set (snd (export_notebook_as_zip self room user_id notebook_id nn)) \<subseteq>
     {Repo_list_by_user_id user_id notebook_id, Folder_repo_list_by_notebook user_id notebook_id}
       \<union> range S3_get_object"
proof (cases "repo_list_by_user_id self user_id notebook_id")
  case (Inl e)
  then show ?thesis by (simp add: export_notebook_as_zip_def)
next
  case (Inr files)
  obtain r cs where fc: "fetch_folders self user_id notebook_id = (r, cs)"
    by (cases "fetch_folders self user_id notebook_id")
  with fetch_folders_calls[of self user_id notebook_id]
  have cs: "set cs \<subseteq> {Folder_repo_list_by_notebook user_id notebook_id}" by simp
  show ?thesis
  proof (cases r)
    case e: (Inl e)
    with Inr fc cs show ?thesis by (auto simp: export_notebook_as_zip_def)
  next
    case folders: (Inr folders)
    with fc have ff: "fst (fetch_folders self user_id notebook_id) = Inr folders" by simp
    have "set (concat (map (\<lambda>f. snd (file_content self f)) files)) \<subseteq> range S3_get_object"
      using file_content_calls[of self] by auto
    with cs fc show ?thesis
      unfolding export_unfold[OF Inr ff]
      by (cases "add_folders room (base_folder_of nn) folders folders []") auto
  qed
qed

lemma sanitize_notebook: "sanitize_filename (lit ''notebook'') = lit ''notebook''"
  by (simp add: sanitize_filename_def strip_def replace_char_def invalid_chars_def lit_def
      py_isspace_def)

text \<open>Every entry is stored under a name that was composed from the base folder.\<close>

lemma add_folders_names:
  assumes "add_folders room base al fs zipf = Inr dirs"
    and "\<forall>e\<in>set zipf. \<exists>rest. fst e = stored_name (base @ rest)"
  shows "\<forall>e\<in>set dirs. \<exists>rest. fst e = stored_name (base @ rest)"
proof -
  from assms(1) have "\<forall>folder\<in>set fs. \<exists>p. get_folder_path room folder al [] = Inr p \<and>
           writable (base @ p @ lit ''/'')"
    by (rule add_folders_Inr_paths)
  from add_folders_returns[OF this, of zipf] assms show ?thesis by auto
qed

lemma archived_entry_name:
  assumes "archived_entry self room base folders f = Some (n, data)"
  shows "\<exists>rest. n = stored_name (base @ rest)"
proof -
  from assms obtain p where "file_zip_path room base folders f = Inr p" "n = stored_name p"
    by (auto simp: archived_entry_def split: sum.splits if_splits)
  with file_zip_path_prefix[of room base folders f p] show ?thesis by auto
qed

lemma export_entry_names:
  assumes "fst (export_notebook_as_zip self room user_id notebook_id nn) = Inr archive"
  shows "\<forall>e\<in>set archive. \<exists>rest. fst e = stored_name (base_folder_of nn @ rest)"
proof (cases "repo_list_by_user_id self user_id notebook_id")
  case (Inl e)
  with assms show ?thesis by (simp add: export_notebook_as_zip_def)
next
  case (Inr files)
  obtain r cs where fc: "fetch_folders self user_id notebook_id = (r, cs)"
    by (cases "fetch_folders self user_id notebook_id")
  show ?thesis
  proof (cases r)
    case e: (Inl e)
    with Inr fc assms show ?thesis by (simp add: export_notebook_as_zip_def)
  next
    case folders: (Inr folders)
    with fc have ff: "fst (fetch_folders self user_id notebook_id) = Inr folders" by simp
    show ?thesis
    proof (cases "add_folders room (base_folder_of nn) folders folders []")
      case l: (Inl e)
      with assms show ?thesis unfolding export_unfold[OF Inr ff] by simp
    next
      case dirs: (Inr dirs)
      then have d: "\<forall>e\<in>set dirs. \<exists>rest. fst e = stored_name (base_folder_of nn @ rest)"
        by (rule add_folders_names) simp
      from dirs assms
      have "archive = dirs @ List.map_filter (archived_entry self room (base_folder_of nn) folders) files"
        unfolding export_unfold[OF Inr ff] by simp
      with d show ?thesis
        by (auto simp: map_filter_def dest: archived_entry_name)
    qed
  qed
qed

section \<open>The example notebook, evaluated\<close>

lemma utf8_ascii_length:
  "\<forall>c\<in>set s. c < 128 \<Longrightarrow> length (concat (map utf8_char s)) = length s"
  by (induction s) (auto simp: utf8_char_def)

text \<open>Short names of ASCII characters other than NUL are written as they are.\<close>

lemma writable_ascii:
  assumes "\<forall>c\<in>set arcname. 0 < c \<and> c < 128" and "arcname \<noteq> []" and "length arcname \<le> 65535"
  shows "writable arcname" and "stored_name arcname = arcname"
proof -
  from assms(1) have "0 \<notin> set arcname" by auto
  then show s: "stored_name arcname = arcname" by (rule stored_name_no_nul)
  from assms(1) have "\<not> list_ex is_surrogate arcname"
    by (auto simp: list_ex_iff is_surrogate_def)
  moreover from assms(1) have "length (concat (map utf8_char arcname)) = length arcname"
    by (intro utf8_ascii_length) auto
  ultimately show "writable arcname" using assms(2,3) by (simp add: writable_def s)
qed

lemma ex_fetch:
  "repo_list_by_user_id ex_service u n = Inr [ex_inline, ex_surrogate, ex_blob, ex_missing]"
  "fetch_folders ex_service u n = (Inr [ex_root], [Folder_repo_list_by_notebook u n])"
  "repo_list_by_user_id ex_service_no_s3 u n = Inr [ex_inline, ex_surrogate, ex_blob, ex_missing]"
  "fetch_folders ex_service_no_s3 u n = (Inr [ex_root], [Folder_repo_list_by_notebook u n])"
  by (simp_all add: ex_service_def ex_service_no_s3_def ex_list_files_def ex_list_folders_def
      fetch_folders_def)

lemma ex_zip_paths:
  "file_zip_path room base [ex_root] ex_inline = Inr (base @ lit ''a.md'')"
  "file_zip_path room base [ex_root] ex_surrogate = Inr (base @ lit ''s.txt'')"
  "file_zip_path room base [ex_root] ex_blob = Inr (base @ lit ''Resources'' @ lit ''/'' @ lit ''b.md'')"
  "file_zip_path room base [ex_root] ex_missing = Inr (base @ lit ''missing.wav'')"
  by (simp_all add: file_zip_path_def ex_root_path find_folder_def)
     (simp_all add: ex_inline_def ex_surrogate_def ex_blob_def ex_missing_def ex_root_def lit_def)

lemma ex_contents:
  "file_content ex_service ex_inline = (Inr [104, 101, 108, 108, 111], [])"
  "file_content ex_service ex_surrogate = (Inl UnicodeEncodeError, [])"
  "file_content ex_service ex_blob = (Inr [1, 2, 3], [S3_get_object (lit ''k-b'')])"
  "file_content ex_service ex_missing = (Inr [], [S3_get_object (lit ''missing.wav'')])"
  "file_content ex_service_no_s3 ex_inline = (Inr [104, 101, 108, 108, 111], [])"
  "file_content ex_service_no_s3 ex_surrogate = (Inl UnicodeEncodeError, [])"
  "file_content ex_service_no_s3 ex_blob = (Inr [], [])"
  "file_content ex_service_no_s3 ex_missing = (Inr [], [])"
  by (simp_all add: file_content_def get_file_bytes_from_s3_def encode_utf8_def is_surrogate_def
      utf8_char_def ex_service_def ex_service_no_s3_def ex_store_def ex_inline_def
      ex_surrogate_def ex_blob_def ex_missing_def lit_def)

text \<open>The example notebook under a base folder whose four entry names can be written.\<close>

lemma ex_entries:
  assumes "writable (base_folder_of nn @ lit ''a.md'')"
    and "writable (base_folder_of nn @ lit ''Resources'' @ lit ''/'' @ lit ''b.md'')"
    and "writable (base_folder_of nn @ lit ''missing.wav'')"
  shows "List.map_filter (archived_entry ex_service room (base_folder_of nn) [ex_root])
       [ex_inline, ex_surrogate, ex_blob, ex_missing] =
     [(stored_name (base_folder_of nn @ lit ''a.md''), [104, 101, 108, 108, 111]),
      (stored_name (base_folder_of nn @ lit ''Resources'' @ lit ''/'' @ lit ''b.md''), [1, 2, 3]),
      (stored_name (base_folder_of nn @ lit ''missing.wav''), [])]"
    and "List.map_filter (archived_entry ex_service_no_s3 room (base_folder_of nn) [ex_root])
       [ex_inline, ex_surrogate, ex_blob, ex_missing] =
     [(stored_name (base_folder_of nn @ lit ''a.md''), [104, 101, 108, 108, 111]),
      (stored_name (base_folder_of nn @ lit ''Resources'' @ lit ''/'' @ lit ''b.md''), []),
      (stored_name (base_folder_of nn @ lit ''missing.wav''), [])]"
  using assms by (simp_all add: map_filter_simps archived_entry_def ex_zip_paths ex_contents)

lemma ex_export:
  assumes "writable (base_folder_of nn @ lit ''Resources'' @ lit ''/'')"
    and "writable (base_folder_of nn @ lit ''a.md'')"
    and "writable (base_folder_of nn @ lit ''Resources'' @ lit ''/'' @ lit ''b.md'')"
    and "writable (base_folder_of nn @ lit ''missing.wav'')"
  shows "export_notebook_as_zip ex_service room u n nn =
     (Inr [(stored_name (base_folder_of nn @ lit ''Resources'' @ lit ''/''), []),
           (stored_name (base_folder_of nn @ lit ''a.md''), [104, 101, 108, 108, 111]),
           (stored_name (base_folder_of nn @ lit ''Resources'' @ lit ''/'' @ lit ''b.md''), [1, 2, 3]),
           (stored_name (base_folder_of nn @ lit ''missing.wav''), [])],
      [Repo_list_by_user_id u n, Folder_repo_list_by_notebook u n,
       S3_get_object (lit ''k-b''), S3_get_object (lit ''missing.wav'')])"
    and "export_notebook_as_zip ex_service_no_s3 room u n nn =
     (Inr [(stored_name (base_folder_of nn @ lit ''Resources'' @ lit ''/''), []),
           (stored_name (base_folder_of nn @ lit ''a.md''), [104, 101, 108, 108, 111]),
           (stored_name (base_folder_of nn @ lit ''Resources'' @ lit ''/'' @ lit ''b.md''), []),
           (stored_name (base_folder_of nn @ lit ''missing.wav''), [])],
      [Repo_list_by_user_id u n, Folder_repo_list_by_notebook u n])"
proof -
  have d: "add_folders room (base_folder_of nn) [ex_root] [ex_root] [] =
      Inr [(stored_name (base_folder_of nn @ lit ''Resources'' @ lit ''/''), [])]"
    using assms(1) by (simp add: ex_root_path writestr_writable)
  note e = ex_entries[OF assms(2,3,4)]
  show "export_notebook_as_zip ex_service room u n nn =
     (Inr [(stored_name (base_folder_of nn @ lit ''Resources'' @ lit ''/''), []),
           (stored_name (base_folder_of nn @ lit ''a.md''), [104, 101, 108, 108, 111]),
           (stored_name (base_folder_of nn @ lit ''Resources'' @ lit ''/'' @ lit ''b.md''), [1, 2, 3]),
           (stored_name (base_folder_of nn @ lit ''missing.wav''), [])],
      [Repo_list_by_user_id u n, Folder_repo_list_by_notebook u n,
       S3_get_object (lit ''k-b''), S3_get_object (lit ''missing.wav'')])"
    by (simp add: export_unfold[OF ex_fetch(1), where folders = "[ex_root]"] ex_fetch d e
        ex_contents del: add_folders.simps map_filter_simps)
  show "export_notebook_as_zip ex_service_no_s3 room u n nn =
     (Inr [(stored_name (base_folder_of nn @ lit ''Resources'' @ lit ''/''), []),
           (stored_name (base_folder_of nn @ lit ''a.md''), [104, 101, 108, 108, 111]),
           (stored_name (base_folder_of nn @ lit ''Resources'' @ lit ''/'' @ lit ''b.md''), []),
           (stored_name (base_folder_of nn @ lit ''missing.wav''), [])],
      [Repo_list_by_user_id u n, Folder_repo_list_by_notebook u n])"
    by (simp add: export_unfold[OF ex_fetch(3), where folders = "[ex_root]"] ex_fetch d e
        ex_contents del: add_folders.simps map_filter_simps)
qed

lemma ex_base: "base_folder_of (Some (lit ''MyNotebook'')) = lit ''MyNotebook/''"
  "base_folder_of None = lit ''notebook/''"
  "base_folder_of (Some [97, 0, 98]) = [97, 0, 98, 47]"
  by (simp_all add: base_folder_of_def safe_notebook_name_def sanitize_filename_def strip_def
      replace_char_def invalid_chars_def lit_def py_isspace_def)

lemma ex_names_plain:
  "writable (lit ''notebook/'' @ lit ''Resources'' @ lit ''/'')"
  "writable (lit ''notebook/'' @ lit ''a.md'')"
  "writable (lit ''notebook/'' @ lit ''Resources'' @ lit ''/'' @ lit ''b.md'')"
  "writable (lit ''notebook/'' @ lit ''missing.wav'')"
  "stored_name (lit ''notebook/'' @ lit ''Resources'' @ lit ''/'') = lit ''notebook/Resources/''"
  "stored_name (lit ''notebook/'' @ lit ''a.md'') = lit ''notebook/a.md''"
  "stored_name (lit ''notebook/'' @ lit ''Resources'' @ lit ''/'' @ lit ''b.md'') = lit ''notebook/Resources/b.md''"
  "stored_name (lit ''notebook/'' @ lit ''missing.wav'') = lit ''notebook/missing.wav''"
  by (simp_all add: writable_ascii lit_def)

lemma ex_names_my:
  "writable (lit ''MyNotebook/'' @ lit ''Resources'' @ lit ''/'')"
  "writable (lit ''MyNotebook/'' @ lit ''a.md'')"
  "writable (lit ''MyNotebook/'' @ lit ''Resources'' @ lit ''/'' @ lit ''b.md'')"
  "writable (lit ''MyNotebook/'' @ lit ''missing.wav'')"
  "stored_name (lit ''MyNotebook/'' @ lit ''Resources'' @ lit ''/'') = lit ''MyNotebook/Resources/''"
  "stored_name (lit ''MyNotebook/'' @ lit ''a.md'') = lit ''MyNotebook/a.md''"
  "stored_name (lit ''MyNotebook/'' @ lit ''Resources'' @ lit ''/'' @ lit ''b.md'') = lit ''MyNotebook/Resources/b.md''"
  "stored_name (lit ''MyNotebook/'' @ lit ''missing.wav'') = lit ''MyNotebook/missing.wav''"
  by (simp_all add: writable_ascii lit_def)

lemma ex_names_nul:
  "stored_name ([97, 0, 98, 47] @ rest) = [97]"
  "writable ([97, 0, 98, 47] @ rest)"
  by (simp_all add: writable_def stored_name_def is_surrogate_def utf8_char_def)

lemma ex_export_plain:
  "export_notebook_as_zip ex_service room u n None =
     (Inr [(lit ''notebook/Resources/'', []),
           (lit ''notebook/a.md'', [104, 101, 108, 108, 111]),
           (lit ''notebook/Resources/b.md'', [1, 2, 3]),
           (lit ''notebook/missing.wav'', [])],
      [Repo_list_by_user_id u n, Folder_repo_list_by_notebook u n,
       S3_get_object (lit ''k-b''), S3_get_object (lit ''missing.wav'')])"
  "export_notebook_as_zip ex_service_no_s3 room u n None =
     (Inr [(lit ''notebook/Resources/'', []),
           (lit ''notebook/a.md'', [104, 101, 108, 108, 111]),
           (lit ''notebook/Resources/b.md'', []),
           (lit ''notebook/missing.wav'', [])],
      [Repo_list_by_user_id u n, Folder_repo_list_by_notebook u n])"
  using ex_export[of None room u n] by (simp_all only: ex_base ex_names_plain)

lemma ex_export_my:
  "export_notebook_as_zip ex_service room u n (Some (lit ''MyNotebook'')) =
     (Inr [(lit ''MyNotebook/Resources/'', []),
           (lit ''MyNotebook/a.md'', [104, 101, 108, 108, 111]),
           (lit ''MyNotebook/Resources/b.md'', [1, 2, 3]),
           (lit ''MyNotebook/missing.wav'', [])],
      [Repo_list_by_user_id u n, Folder_repo_list_by_notebook u n,
       S3_get_object (lit ''k-b''), S3_get_object (lit ''missing.wav'')])"
  using ex_export(1)[of "Some (lit ''MyNotebook'')" room u n] by (simp only: ex_base ex_names_my)

lemma ex_export_nul:
  "export_notebook_as_zip ex_service room u n (Some [97, 0, 98]) =
     (Inr [([97], []), ([97], [104, 101, 108, 108, 111]), ([97], [1, 2, 3]), ([97], [])],
      [Repo_list_by_user_id u n, Folder_repo_list_by_notebook u n,
       S3_get_object (lit ''k-b''), S3_get_object (lit ''missing.wav'')])"
  using ex_export(1)[of "Some [97, 0, 98]" room u n] by (simp only: ex_base ex_names_nul)



section \<open>The archive returned by the export\<close>










lemma safe_notebook_name_no_slash: "of_char CHR ''/'' \<notin> set (safe_notebook_name nn)"
proof -
  have "of_char CHR ''/'' \<in> set invalid_chars" by (simp add: invalid_chars_def)
  with sanitize_filename_clean show ?thesis unfolding safe_notebook_name_def by blast
qed

lemma stored_under_base:
  "0 \<notin> set safe \<Longrightarrow> prefix (safe @ lit ''/'') (stored_name ((safe @ lit ''/'') @ rest))"
  "0 \<in> set safe \<Longrightarrow> stored_name ((safe @ lit ''/'') @ rest) = stored_name safe"
proof -
  assume "0 \<notin> set safe"
  then have "0 \<notin> set (safe @ lit ''/'')" by (simp add: lit_def)
  then have "stored_name ((safe @ lit ''/'') @ rest) = (safe @ lit ''/'') @ stored_name rest"
    by (simp only: stored_name_append if_False)
  then show "prefix (safe @ lit ''/'') (stored_name ((safe @ lit ''/'') @ rest))" by simp
next
  assume "0 \<in> set safe"
  then have "stored_name (safe @ (lit ''/'' @ rest)) = stored_name safe"
    by (simp only: stored_name_append if_True)
  then show "stored_name ((safe @ lit ''/'') @ rest) = stored_name safe" by simp
qed

text \<open>
  C8 (as amended). For an absent or empty notebook name the top-level name is
  \<open>notebook\<close>; otherwise it is the sanitized notebook name; it holds no slash. When it
  holds no NUL character, the name of every entry of a returned archive starts with it
  and a slash; when it holds one, every entry is stored under the part of it before its
  first NUL character.
\<close>

theorem top_level_name:
  "safe_notebook_name None = lit ''notebook'' \<and>
   safe_notebook_name (Some []) = lit ''notebook'' \<and>
   (nm \<noteq> [] \<longrightarrow> safe_notebook_name (Some nm) = sanitize_filename nm) \<and>
   of_char CHR ''/'' \<notin> set (safe_notebook_name nn) \<and>
   (\<forall>archive. fst (export_notebook_as_zip self room user_id notebook_id nn) = Inr archive \<longrightarrow>
      (\<forall>e\<in>set archive.
         (0 \<notin> set (safe_notebook_name nn) \<longrightarrow> prefix (safe_notebook_name nn @ lit ''/'') (fst e)) \<and>
         (0 \<in> set (safe_notebook_name nn) \<longrightarrow> fst e = stored_name (safe_notebook_name nn))))"
proof (intro conjI allI impI ballI)
  show "safe_notebook_name None = lit ''notebook''"
    by (simp add: safe_notebook_name_def sanitize_notebook)
  show "safe_notebook_name (Some []) = lit ''notebook''"
    by (simp add: safe_notebook_name_def sanitize_notebook)
  show "safe_notebook_name (Some nm) = sanitize_filename nm" if "nm \<noteq> []"
    using that by (simp add: safe_notebook_name_def)
  show "of_char CHR ''/'' \<notin> set (safe_notebook_name nn)" by (rule safe_notebook_name_no_slash)
next
  fix archive e
  assume "fst (export_notebook_as_zip self room user_id notebook_id nn) = Inr archive"
    and "e \<in> set archive"
  with export_entry_names obtain rest where
    r: "fst e = stored_name ((safe_notebook_name nn @ lit ''/'') @ rest)"
    unfolding base_folder_of_def by blast
  show "prefix (safe_notebook_name nn @ lit ''/'') (fst e)" if "0 \<notin> set (safe_notebook_name nn)"
    unfolding r using that by (rule stored_under_base)
  show "fst e = stored_name (safe_notebook_name nn)" if "0 \<in> set (safe_notebook_name nn)"
    unfolding r using that by (rule stored_under_base)
qed

theorem top_level_name_witness:
  "fst (export_notebook_as_zip ex_service 1000 (lit ''u1'') (lit ''n1'') None) =
     Inr [(lit ''notebook/Resources/'', []),
          (lit ''notebook/a.md'', [104, 101, 108, 108, 111]),
          (lit ''notebook/Resources/b.md'', [1, 2, 3]),
          (lit ''notebook/missing.wav'', [])] \<and>
   safe_notebook_name None = lit ''notebook'' \<and> 0 \<notin> set (lit ''notebook'') \<and>
   prefix (lit ''notebook'' @ lit ''/'') (lit ''notebook/Resources/b.md'') \<and>
   lit ''a:b'' \<noteq> [] \<and> safe_notebook_name (Some (lit ''a:b'')) = lit ''a_b'' \<and>
   fst (export_notebook_as_zip ex_service 1000 (lit ''u1'') (lit ''n1'') (Some [97, 0, 98])) =
     Inr [([97], []), ([97], [104, 101, 108, 108, 111]), ([97], [1, 2, 3]), ([97], [])] \<and>
   0 \<in> set (safe_notebook_name (Some [97, 0, 98])) \<and>
   stored_name (safe_notebook_name (Some [97, 0, 98])) = [97]"
proof -
  note t = top_level_name[of "lit ''a:b''" None ex_service 1000 "lit ''u1''" "lit ''n1''"]
  have e: "fst (export_notebook_as_zip ex_service 1000 (lit ''u1'') (lit ''n1'') None) =
     Inr [(lit ''notebook/Resources/'', []),
          (lit ''notebook/a.md'', [104, 101, 108, 108, 111]),
          (lit ''notebook/Resources/b.md'', [1, 2, 3]),
          (lit ''notebook/missing.wav'', [])]"
    by (simp add: ex_export_plain)
  from t have n: "safe_notebook_name None = lit ''notebook''" by (rule conjunct1)
  have z: "0 \<notin> set (lit ''notebook'')" by (simp add: lit_def)
  from t have "\<forall>archive. fst (export_notebook_as_zip ex_service 1000 (lit ''u1'') (lit ''n1'') None) = Inr archive \<longrightarrow>
      (\<forall>e\<in>set archive.
         (0 \<notin> set (safe_notebook_name None) \<longrightarrow> prefix (safe_notebook_name None @ lit ''/'') (fst e)) \<and>
         (0 \<in> set (safe_notebook_name None) \<longrightarrow> fst e = stored_name (safe_notebook_name None)))"
    by blast
  with e have "\<forall>e\<in>set [(lit ''notebook/Resources/'', [] :: pybytes),
          (lit ''notebook/a.md'', [104, 101, 108, 108, 111]),
          (lit ''notebook/Resources/b.md'', [1, 2, 3]),
          (lit ''notebook/missing.wav'', [])].
         (0 \<notin> set (safe_notebook_name None) \<longrightarrow> prefix (safe_notebook_name None @ lit ''/'') (fst e))"
    by blast
  with z have p: "prefix (lit ''notebook'' @ lit ''/'') (lit ''notebook/Resources/b.md'')"
    by (simp add: n)
  have ne: "lit ''a:b'' \<noteq> []" by (simp add: lit_def)
  from t have "lit ''a:b'' \<noteq> [] \<longrightarrow> safe_notebook_name (Some (lit ''a:b'')) = sanitize_filename (lit ''a:b'')"
    by blast
  with ne have "safe_notebook_name (Some (lit ''a:b'')) = sanitize_filename (lit ''a:b'')" by blast
  also have "\<dots> = lit ''a_b''"
    by (simp add: sanitize_filename_def strip_def replace_char_def invalid_chars_def lit_def
        py_isspace_def)
  finally have s: "safe_notebook_name (Some (lit ''a:b'')) = lit ''a_b''" .
  have en: "fst (export_notebook_as_zip ex_service 1000 (lit ''u1'') (lit ''n1'') (Some [97, 0, 98])) =
     Inr [([97], []), ([97], [104, 101, 108, 108, 111]), ([97], [1, 2, 3]), ([97], [])]"
    by (simp add: ex_export_nul)
  have sn: "safe_notebook_name (Some [97, 0, 98]) = [97, 0, 98]"
    by (simp add: safe_notebook_name_def sanitize_filename_def strip_def replace_char_def
        invalid_chars_def py_isspace_def)
  then have zn: "0 \<in> set (safe_notebook_name (Some [97, 0, 98]))" by simp
  from top_level_name[of "lit ''a:b''" "Some [97, 0, 98]" ex_service 1000 "lit ''u1''" "lit ''n1''"]
  have "\<forall>archive. fst (export_notebook_as_zip ex_service 1000 (lit ''u1'') (lit ''n1'') (Some [97, 0, 98])) = Inr archive \<longrightarrow>
      (\<forall>e\<in>set archive.
         (0 \<in> set (safe_notebook_name (Some [97, 0, 98])) \<longrightarrow>
          fst e = stored_name (safe_notebook_name (Some [97, 0, 98]))))"
    by blast
  with en zn have "\<forall>e\<in>set [([97], [] :: pybytes), ([97], [104, 101, 108, 108, 111]), ([97], [1, 2, 3]), ([97], [])].
      fst e = stored_name (safe_notebook_name (Some [97, 0, 98]))"
    by blast
  then have st: "stored_name (safe_notebook_name (Some [97, 0, 98])) = [97]" by simp
  from e n z p ne s en zn st show ?thesis by blast
qed

text \<open>
  C8 as stated fails: for a notebook name with a NUL character the entries are not under
  the sanitized notebook name but under its part before the NUL.
\<close>

theorem nul_cuts_top_level_name:
  "safe_notebook_name (Some [97, 0, 98]) = [97, 0, 98] \<and>
   fst (export_notebook_as_zip ex_service 1000 (lit ''u1'') (lit ''n1'') (Some [97, 0, 98])) =
     Inr [([97], []), ([97], [104, 101, 108, 108, 111]), ([97], [1, 2, 3]), ([97], [])] \<and>
   \<not> prefix ([97, 0, 98] @ lit ''/'') [97]"
  by (simp add: ex_export_nul)
     (simp add: safe_notebook_name_def sanitize_filename_def strip_def replace_char_def
       invalid_chars_def py_isspace_def)

text \<open>
  C9. Every call the export makes on its collaborators is one of the two listings or an
  object fetch: no commit, create, update or delete on the database, no upload, delete or
  bucket creation on blob storage.
\<close>

theorem export_is_read_only:
  "\<forall>c\<in>set (snd (export_notebook_as_zip self room user_id notebook_id nn)).
     \<not> is_write c \<and>
     (c = Repo_list_by_user_id user_id notebook_id \<or>
      c = Folder_repo_list_by_notebook user_id notebook_id \<or>
      (\<exists>key. c = S3_get_object key))"
proof
  fix c assume "c \<in> set (snd (export_notebook_as_zip self room user_id notebook_id nn))"
  with export_call_trace[of self room user_id notebook_id nn]
  have "c = Repo_list_by_user_id user_id notebook_id \<or>
      c = Folder_repo_list_by_notebook user_id notebook_id \<or>
      (\<exists>key. c = S3_get_object key)" by auto
  then show "\<not> is_write c \<and>
     (c = Repo_list_by_user_id user_id notebook_id \<or>
      c = Folder_repo_list_by_notebook user_id notebook_id \<or>
      (\<exists>key. c = S3_get_object key))" by auto
qed

theorem export_is_read_only_witness:
  "snd (export_notebook_as_zip ex_service 1000 (lit ''u1'') (lit ''n1'') None) =
     [Repo_list_by_user_id (lit ''u1'') (lit ''n1''),
      Folder_repo_list_by_notebook (lit ''u1'') (lit ''n1''),
      S3_get_object (lit ''k-b''), S3_get_object (lit ''missing.wav'')] \<and>
   \<not> is_write (S3_get_object (lit ''k-b'')) \<and>
   \<not> is_write (Repo_list_by_user_id (lit ''u1'') (lit ''n1''))"
proof -
  have tr: "snd (export_notebook_as_zip ex_service 1000 (lit ''u1'') (lit ''n1'') None) =
     [Repo_list_by_user_id (lit ''u1'') (lit ''n1''),
      Folder_repo_list_by_notebook (lit ''u1'') (lit ''n1''),
      S3_get_object (lit ''k-b''), S3_get_object (lit ''missing.wav'')]"
    by (simp add: ex_export_plain)
  then have m: "S3_get_object (lit ''k-b'') \<in> set (snd (export_notebook_as_zip ex_service 1000 (lit ''u1'') (lit ''n1'') None))"
    "Repo_list_by_user_id (lit ''u1'') (lit ''n1'') \<in> set (snd (export_notebook_as_zip ex_service 1000 (lit ''u1'') (lit ''n1'') None))"
    by simp_all
  from export_is_read_only[of ex_service 1000 "lit ''u1''" "lit ''n1''" None] m
  have "\<not> is_write (S3_get_object (lit ''k-b''))"
    "\<not> is_write (Repo_list_by_user_id (lit ''u1'') (lit ''n1''))"
    by blast+
  with tr show ?thesis by blast
qed




end
